theory Spec2Isabelle
  imports Main
begin

section \<open>Errors and values\<close>

text \<open>
  The Python exceptions that the functions of \<^verbatim>\<open>geoopt/utils.py\<close> can raise.
  A function that may raise returns \<open>error + 'a\<close>, with \<open>Inl\<close> for the exception.
\<close>

datatype error = ValueError | TypeError | ZeroDivisionError | IndexError | AttributeError

text \<open>
  The dynamically typed arguments of \<^verbatim>\<open>reduce_dim\<close>: \<^verbatim>\<open>None\<close>, an integer,
  a tuple or a list.
\<close>

datatype pyval = PyNone | PyInt int | PyTuple "pyval list" | PyList "pyval list"

section \<open>Tuple helpers\<close>

text \<open>
  \<^verbatim>\<open>strip_tuple(tup)\<close> receives a tuple, given here by its elements:
  a one-element tuple is replaced by its element.
\<close>

definition strip_tuple :: "pyval list \<Rightarrow> pyval" where
  "strip_tuple tup = (if length tup = 1 then tup ! 0 else PyTuple tup)"

text \<open>\<^verbatim>\<open>make_tuple(obj)\<close>: anything that is not a tuple is wrapped in a one-element tuple.\<close>

fun make_tuple :: "pyval \<Rightarrow> pyval" where
  "make_tuple (PyTuple xs) = PyTuple xs"
| "make_tuple obj = PyTuple [obj]"

text \<open>\<^verbatim>\<open>size2shape(*size)\<close>: the tuple \<open>sizes\<close> of the positional arguments
  (\<^verbatim>\<open>size\<close> in the source) is stripped and made a tuple again.\<close>

definition size2shape :: "pyval list \<Rightarrow> pyval" where
  "size2shape sizes = make_tuple (strip_tuple sizes)"

section \<open>Index canonicalisation\<close>

text \<open>
  Python's \<^verbatim>\<open>%\<close> on integers is the floored modulo, whose result takes the sign of
  the divisor, as \<open>mod\<close> on \<open>int\<close> does; a zero divisor raises
  \<^verbatim>\<open>ZeroDivisionError\<close>.
\<close>

definition py_mod :: "int \<Rightarrow> int \<Rightarrow> error + int" where
  "py_mod a b = (if b = 0 then Inl ZeroDivisionError else Inr (a mod b))"

text \<open>\<^verbatim>\<open>idx2sign(idx, dim, neg=True)\<close>.\<close>

definition idx2sign :: "int \<Rightarrow> int \<Rightarrow> bool \<Rightarrow> error + int" where
  "idx2sign idx dim neg =
     (if neg then
        (if idx < 0 then Inr idx
         else py_mod (idx + 1) (- (dim + 1)))
      else py_mod idx dim)"

text \<open>
  \<^verbatim>\<open>canonical_dims(dims, maxdim)\<close>: the tuple of \<^verbatim>\<open>idx2sign(idx, maxdim, neg=False)\<close>
  over \<^verbatim>\<open>dims\<close>, in order; the first exception ends the construction.
\<close>

fun canonical_dims :: "int list \<Rightarrow> int \<Rightarrow> error + int list" where
  "canonical_dims [] maxdim = Inr []"
| "canonical_dims (idx # dims) maxdim =
     (case idx2sign idx maxdim False of
        Inl e \<Rightarrow> Inl e
      | Inr d \<Rightarrow> (case canonical_dims dims maxdim of
                   Inl e \<Rightarrow> Inl e
                 | Inr ds \<Rightarrow> Inr (d # ds)))"

section \<open>Axes to reduce\<close>

text \<open>\<^verbatim>\<open>list(range(maxdim))\<close>: empty when \<^verbatim>\<open>maxdim\<close> is not positive.\<close>

definition py_range :: "int \<Rightarrow> int list" where
  "py_range n = map int [0..<nat n]"

text \<open>
  \<^verbatim>\<open>del xs[i]\<close> on a list: a negative index counts from the end, an index out of
  range raises \<^verbatim>\<open>IndexError\<close>.
\<close>

definition list_del :: "'a list \<Rightarrow> int \<Rightarrow> error + 'a list" where
  "list_del xs i =
     (let n = int (length xs); j = (if i < 0 then i + n else i)
      in if 0 \<le> j \<and> j < n then Inr (take (nat j) xs @ drop (Suc (nat j)) xs)
         else Inl IndexError)"

text \<open>
  \<^verbatim>\<open>reduce_dim(maxdim, reducedim, dim)\<close>. With \<^verbatim>\<open>reducedim is None\<close> the result is
  the list of all axes with position \<^verbatim>\<open>dim\<close> deleted (an index that is not an
  integer raises \<^verbatim>\<open>TypeError\<close>); otherwise it is \<^verbatim>\<open>size2shape(reducedim)\<close>.
\<close>

definition reduce_dim :: "int \<Rightarrow> pyval \<Rightarrow> pyval \<Rightarrow> error + pyval" where
  "reduce_dim maxdim reducedim dim =
     (if reducedim = PyNone then
        (case dim of
           PyInt k \<Rightarrow>
             (case list_del (py_range maxdim) k of
                Inl e \<Rightarrow> Inl e
              | Inr xs \<Rightarrow> Inr (PyList (map PyInt xs)))
         | _ \<Rightarrow> Inl TypeError)
      else Inr (size2shape [reducedim]))"

section \<open>Shape broadcasting\<close>

text \<open>
  \<^verbatim>\<open>itertools.zip_longest(*iters, fillvalue=v)\<close>: one tuple per position up to the
  longest argument, an exhausted argument contributing the fill value; no argument
  gives no tuple.
\<close>

definition zip_longest :: "'a list list \<Rightarrow> 'a \<Rightarrow> 'a list list" where
  "zip_longest iters fillvalue =
     map (\<lambda>i. map (\<lambda>xs. if i < length xs then xs ! i else fillvalue) iters)
       [0..<foldr max (map length iters) 0]"

text \<open>
  The inner loop of \<^verbatim>\<open>broadcast_shapes\<close> over the sizes \<^verbatim>\<open>dims\<close> of one aligned
  axis, started with \<^verbatim>\<open>dim = 1\<close>.
\<close>

fun broadcast_dim :: "int \<Rightarrow> int list \<Rightarrow> error + int" where
  "broadcast_dim dim [] = Inr dim"
| "broadcast_dim dim (d # ds) =
     (if dim \<noteq> 1 \<and> d \<noteq> 1 \<and> d \<noteq> dim then Inl ValueError
      else if d > dim then broadcast_dim d ds
      else broadcast_dim dim ds)"

text \<open>The outer loop, appending one size per aligned axis to \<^verbatim>\<open>result\<close>.\<close>

fun broadcast_loop :: "int list list \<Rightarrow> int list \<Rightarrow> error + int list" where
  "broadcast_loop [] result = Inr result"
| "broadcast_loop (dims # rest) result =
     (case broadcast_dim 1 dims of
        Inl e \<Rightarrow> Inl e
      | Inr dim \<Rightarrow> broadcast_loop rest (result @ [dim]))"

text \<open>\<^verbatim>\<open>broadcast_shapes(*shapes)\<close>, the shapes given as the list of the arguments.\<close>

definition broadcast_shapes :: "int list list \<Rightarrow> error + int list" where
  "broadcast_shapes shapes =
     (case broadcast_loop (zip_longest (map rev shapes) 1) [] of
        Inl e \<Rightarrow> Inl e
      | Inr result \<Rightarrow> Inr (rev result))"

section \<open>Dropping axes of a tensor\<close>

text \<open>
  Modelled from the spec: the Tensor type belongs to the external tensor library and is
  not part of \<^verbatim>\<open>utils.py\<close>; the spec (section 6) asks of it a rank query and
  indexed selection. A tensor is its shape and its elements, read by a full
  multi-index.
\<close>

record 'a tensor =
  shape :: "nat list"
  elem :: "nat list \<Rightarrow> 'a"

text \<open>\<^verbatim>\<open>tensor.dim()\<close>, the number of axes.\<close>

definition tensor_dim :: "'a tensor \<Rightarrow> int" where
  "tensor_dim t = int (length (shape t))"

text \<open>
  The two kinds of entries of the index tuple that \<^verbatim>\<open>drop_dims\<close> builds:
  \<^verbatim>\<open>slice(None)\<close>, the full range of an axis, and an integer, which selects one
  position and removes the axis.
\<close>

datatype index = Slice_None | Index int

text \<open>
  Modelled from the spec: \<^verbatim>\<open>tensor[slc]\<close> of the external Tensor type, for a tuple
  of full slices and integers. \<open>index_shape\<close> is the shape of the result: an integer
  \<open>k\<close> on an axis of size \<open>n\<close> must satisfy \<open>- n \<le> k < n\<close>, else \<^verbatim>\<open>IndexError\<close>
  (so index 0 on an empty axis is an error), as are more entries than axes.
  \<open>index_fill\<close> turns a multi-index of the result into the multi-index of the
  source that it reads.
\<close>

fun index_shape :: "index list \<Rightarrow> nat list \<Rightarrow> error + nat list" where
  "index_shape [] shp = Inr shp"
| "index_shape (i # slc) [] = Inl IndexError"
| "index_shape (Slice_None # slc) (n # shp) =
     (case index_shape slc shp of Inl e \<Rightarrow> Inl e | Inr s \<Rightarrow> Inr (n # s))"
| "index_shape (Index k # slc) (n # shp) =
     (if - int n \<le> k \<and> k < int n then index_shape slc shp else Inl IndexError)"

fun index_fill :: "index list \<Rightarrow> nat list \<Rightarrow> nat list \<Rightarrow> nat list" where
  "index_fill (Index k # slc) (n # shp) js =
     nat (if k < 0 then k + int n else k) # index_fill slc shp js"
| "index_fill (Slice_None # slc) (n # shp) (j # js) = j # index_fill slc shp js"
| "index_fill slc shp js = js"

definition getitem :: "'a tensor \<Rightarrow> index list \<Rightarrow> error + 'a tensor" where
  "getitem t slc =
     (case index_shape slc (shape t) of
        Inl e \<Rightarrow> Inl e
      | Inr shp \<Rightarrow> Inr \<lparr>shape = shp, elem = (\<lambda>js. elem t (index_fill slc (shape t) js))\<rparr>)"

text \<open>
  \<^verbatim>\<open>drop_dims(tensor, dims)\<close>: the axes are canonicalised against the rank, the
  index tuple has \<^verbatim>\<open>0\<close> at every axis \<^verbatim>\<open>d\<close> of \<^verbatim>\<open>range(tensor.dim())\<close> that is
  in the canonical axes and \<^verbatim>\<open>slice(None)\<close> elsewhere, and the tensor is indexed
  with it.
\<close>

definition drop_dims :: "'a tensor \<Rightarrow> int list \<Rightarrow> error + 'a tensor" where
  "drop_dims t dims =
     (case canonical_dims dims (tensor_dim t) of
        Inl e \<Rightarrow> Inl e
      | Inr cdims \<Rightarrow>
          getitem t (map (\<lambda>d. if d \<notin> set cdims then Slice_None else Index 0)
                       (py_range (tensor_dim t))))"

text \<open>A tensor of shape \<open>(2, 3, 4)\<close> whose element at a multi-index is that multi-index.\<close>

definition example_tensor :: "nat list tensor" where
  "example_tensor = \<lparr>shape = [2, 3, 4], elem = (\<lambda>js. js)\<rparr>"

text \<open>A tensor of shape \<open>(2, 0, 4)\<close>: its middle axis is empty, so it has no element.\<close>

definition empty_axis_tensor :: "nat list tensor" where
  "empty_axis_tensor = \<lparr>shape = [2, 0, 4], elem = (\<lambda>js. js)\<rparr>"

section \<open>Manifolds and their wrappers\<close>

text \<open>
  Modelled from the spec: the classes \<^verbatim>\<open>geoopt.manifolds.Manifold\<close> and
  \<^verbatim>\<open>geoopt.Scaled\<close> are declared outside \<^verbatim>\<open>utils.py\<close>. The part of the package
  that the functions use is a parameter: the subclass relation \<^verbatim>\<open>issubclass\<close> on
  classes and the two classes themselves.
\<close>

record 'c geoopt =
  issubclass :: "'c \<Rightarrow> 'c \<Rightarrow> bool"
  Manifold :: 'c
  Scaled :: 'c

text \<open>
  Objects live in a store and are named by references. An object has its class and may
  have an attribute \<^verbatim>\<open>base\<close>, a reference to another object; a wrapper refers to the
  manifold it wraps through it. The store does not exclude cycles.
\<close>

type_synonym ref = nat

record 'c pyobj =
  cls :: 'c
  base :: "ref option"

text \<open>\<^verbatim>\<open>isinstance(x, c)\<close>: the class of the object is a subclass of \<^verbatim>\<open>c\<close>.\<close>

definition isinstance :: "'c geoopt \<Rightarrow> (ref \<Rightarrow> 'c pyobj) \<Rightarrow> ref \<Rightarrow> 'c \<Rightarrow> bool" where
  "isinstance G h x c = issubclass G (cls (h x)) c"

text \<open>
  \<^verbatim>\<open>canonical_manifold(manifold)\<close>: the loop
  \<^verbatim>\<open>while isinstance(manifold, geoopt.Scaled): manifold = manifold.base\<close>.
  The loop may run forever, which is the value \<open>None\<close>; reading a missing attribute
  raises \<^verbatim>\<open>AttributeError\<close>.
\<close>

partial_function (option) canonical_manifold ::
  "'c geoopt \<Rightarrow> (ref \<Rightarrow> 'c pyobj) \<Rightarrow> ref \<Rightarrow> (error + ref) option" where
  "canonical_manifold G h manifold =
     (if isinstance G h manifold (Scaled G) then
        (case base (h manifold) of
           None \<Rightarrow> Some (Inl AttributeError)
         | Some b \<Rightarrow> canonical_manifold G h b)
      else Some (Inr manifold))"

text \<open>The loop of \<^verbatim>\<open>ismanifold\<close>, which is written out again in that function.\<close>

partial_function (option) ismanifold_unwrap ::
  "'c geoopt \<Rightarrow> (ref \<Rightarrow> 'c pyobj) \<Rightarrow> ref \<Rightarrow> (error + ref) option" where
  "ismanifold_unwrap G h instance =
     (if isinstance G h instance (Scaled G) then
        (case base (h instance) of
           None \<Rightarrow> Some (Inl AttributeError)
         | Some b \<Rightarrow> ismanifold_unwrap G h b)
      else Some (Inr instance))"

text \<open>
  \<^verbatim>\<open>ismanifold(instance, cls)\<close>, the class argument named \<open>c\<close> here: \<^verbatim>\<open>TypeError\<close>
  unless \<open>c\<close> is a subclass of \<^verbatim>\<open>Manifold\<close>, \<^verbatim>\<open>False\<close> for an instance that is not
  a \<^verbatim>\<open>Manifold\<close>, and otherwise the instance check of the unwrapped instance.
\<close>

definition ismanifold ::
  "'c geoopt \<Rightarrow> (ref \<Rightarrow> 'c pyobj) \<Rightarrow> ref \<Rightarrow> 'c \<Rightarrow> (error + bool) option" where
  "ismanifold G h instance c =
     (if \<not> issubclass G c (Manifold G) then Some (Inl TypeError)
      else if \<not> isinstance G h instance (Manifold G) then Some (Inr False)
      else (case ismanifold_unwrap G h instance of
              None \<Rightarrow> None
            | Some (Inl e) \<Rightarrow> Some (Inl e)
            | Some (Inr i) \<Rightarrow> Some (Inr (isinstance G h i c))))"

text \<open>
  A finite wrapper chain: \<open>m\<close> is the head of \<open>n\<close> nested \<^verbatim>\<open>Scaled\<close> wrappers, each
  holding the next in \<^verbatim>\<open>base\<close>, around the object \<open>t\<close>, which is not a
  \<^verbatim>\<open>Scaled\<close>. Such a chain cannot run into a cycle.
\<close>

fun wrapper_chain :: "'c geoopt \<Rightarrow> (ref \<Rightarrow> 'c pyobj) \<Rightarrow> nat \<Rightarrow> ref \<Rightarrow> ref \<Rightarrow> bool" where
  "wrapper_chain G h 0 m t = (\<not> isinstance G h m (Scaled G) \<and> t = m)"
| "wrapper_chain G h (Suc n) m t =
     (isinstance G h m (Scaled G) \<and>
      (case base (h m) of None \<Rightarrow> False | Some b \<Rightarrow> wrapper_chain G h n b t))"

text \<open>
  What the package guarantees of its classes: the subclass relation is transitive, and
  \<^verbatim>\<open>Scaled\<close> is declared as a subclass of \<^verbatim>\<open>Manifold\<close>.
\<close>

definition class_hierarchy :: "'c geoopt \<Rightarrow> bool" where
  "class_hierarchy G \<longleftrightarrow>
     (\<forall>a b c. issubclass G a b \<longrightarrow> issubclass G b c \<longrightarrow> issubclass G a c)
     \<and> issubclass G (Scaled G) (Manifold G)"

text \<open>
  A small instance: four classes, and a store in which object 0 is a \<^verbatim>\<open>Scaled\<close>
  around object 1, a \<^verbatim>\<open>Scaled\<close> around object 2, a sphere; object 3 is a
  \<^verbatim>\<open>Scaled\<close> whose \<^verbatim>\<open>base\<close> is itself; every other object is a plain object.
\<close>

datatype klass = Object_cls | Manifold_cls | Scaled_cls | Sphere_cls

fun klass_subclass :: "klass \<Rightarrow> klass \<Rightarrow> bool" where
  "klass_subclass c Object_cls = True"
| "klass_subclass Object_cls c = False"
| "klass_subclass c Manifold_cls = True"
| "klass_subclass c d = (c = d)"

definition example_geoopt :: "klass geoopt" where
  "example_geoopt = \<lparr>issubclass = klass_subclass, Manifold = Manifold_cls, Scaled = Scaled_cls\<rparr>"

definition example_heap :: "ref \<Rightarrow> klass pyobj" where
  "example_heap r =
     (if r = 0 then \<lparr>cls = Scaled_cls, base = Some 1\<rparr>
      else if r = 1 then \<lparr>cls = Scaled_cls, base = Some 2\<rparr>
      else if r = 2 then \<lparr>cls = Sphere_cls, base = None\<rparr>
      else if r = 3 then \<lparr>cls = Scaled_cls, base = Some 3\<rparr>
      else \<lparr>cls = Object_cls, base = None\<rparr>)"

section \<open>Properties of index canonicalisation\<close>

lemma idx2sign_nonneg_form: "0 < r \<Longrightarrow> idx2sign i r False = Inr (i mod r)"
  by (simp add: idx2sign_def py_mod_def)

lemma shifted_mod: "0 \<le> i \<Longrightarrow> i < r \<Longrightarrow> (i + 1) mod (- (r + 1)) = i - (r::int)"
  by (rule int_mod_neg_eq [where q = "-1"]) simp_all

lemma idx2sign_neg_form:
  "0 \<le> i \<Longrightarrow> i < r \<Longrightarrow> idx2sign i r True = Inr (i - r)"
  by (simp add: idx2sign_def py_mod_def shifted_mod del: minus_add_distrib)

lemma negative_form_unique:
  assumes "0 < r" "- r \<le> j" "j \<le> - 1" "j mod r = i"
  shows "j = i - (r::int)"
proof -
  have "j mod r = j + r"
    by (rule int_mod_pos_eq [where q = "-1"]) (use assms in simp_all)
  then show ?thesis using assms by simp
qed

text \<open>
  Claim C4. For every positive rank \<open>r\<close> and every valid axis index \<open>i\<close>
  (\<open>- r \<le> i \<le> r - 1\<close>), converting \<open>i\<close> to negative form succeeds, and converting
  that result to non-negative form gives the same axis as converting \<open>i\<close> directly.
\<close>

theorem idx2sign_round_trip:
  assumes "0 < r" and "- r \<le> i" and "i \<le> r - 1"
  shows "\<exists>j. idx2sign i r True = Inr j \<and> idx2sign j r False = idx2sign i r False
           \<and> idx2sign i r False = Inr (i mod r)"
proof (cases "i < 0")
  case True
  then show ?thesis using assms by (simp add: idx2sign_def py_mod_def)
next
  case False
  then have "idx2sign i r True = Inr (i - r)"
    using assms by (simp add: idx2sign_neg_form)
  moreover have "idx2sign (i - r) r False = idx2sign i r False"
    using assms by (simp add: idx2sign_nonneg_form)
  ultimately show ?thesis using assms by (simp add: idx2sign_nonneg_form)
qed

theorem idx2sign_round_trip_witness:
  "(\<exists>j. idx2sign 2 3 True = Inr j \<and> idx2sign j 3 False = idx2sign 2 3 False
      \<and> idx2sign 2 3 False = Inr (2 mod 3))
   \<and> idx2sign 2 3 True = Inr (- 1) \<and> idx2sign (- 1) 3 False = Inr 2"
proof -
  have h: "(0::int) < 3" "- 3 \<le> (2::int)" "(2::int) \<le> 3 - 1" by simp_all
  show ?thesis
    using idx2sign_round_trip [OF h] by (simp add: idx2sign_def py_mod_def)
qed

text \<open>
  Claim C5. For every positive rank \<open>r\<close>, \<open>idx2sign idx r True\<close> returns a negative
  \<open>idx\<close> unchanged; for \<open>0 \<le> idx < r\<close> it returns \<open>(idx + 1) mod - (r + 1)\<close>, which is
  \<open>idx - r\<close>, lies in \<open>[- r, - 1]\<close>, denotes the same axis (its non-negative form is
  \<open>idx\<close>) and is the only index of \<open>[- r, - 1]\<close> that does. For rank 3 the indices
  0, 1, 2 are mapped to -3, -2, -1.
\<close>

theorem idx2sign_negative:
  assumes "0 < r"
  shows "(idx < 0 \<longrightarrow> idx2sign idx r True = Inr idx)
       \<and> (0 \<le> idx \<and> idx < r \<longrightarrow>
            idx2sign idx r True = Inr ((idx + 1) mod (- (r + 1)))
          \<and> (idx + 1) mod (- (r + 1)) = idx - r
          \<and> - r \<le> idx - r \<and> idx - r \<le> - 1
          \<and> idx2sign (idx - r) r False = Inr idx
          \<and> (\<forall>j. - r \<le> j \<and> j \<le> - 1 \<and> idx2sign j r False = Inr idx \<longrightarrow> j = idx - r))
       \<and> idx2sign 0 3 True = Inr (- 3)
       \<and> idx2sign 1 3 True = Inr (- 2)
       \<and> idx2sign 2 3 True = Inr (- 1)"
proof (intro conjI impI allI)
  assume "idx < 0"
  then show "idx2sign idx r True = Inr idx" by (simp add: idx2sign_def)
next
  assume a: "0 \<le> idx \<and> idx < r"
  then show "idx2sign idx r True = Inr ((idx + 1) mod (- (r + 1)))"
    using assms by (simp add: idx2sign_def py_mod_def)
  show "(idx + 1) mod (- (r + 1)) = idx - r"
    using a by (intro shifted_mod) simp_all
  show "- r \<le> idx - r" using a by simp
  show "idx - r \<le> - 1" using a by simp
  show "idx2sign (idx - r) r False = Inr idx"
    using a assms by (simp add: idx2sign_nonneg_form)
next
  fix j
  assume a: "0 \<le> idx \<and> idx < r"
    and b: "- r \<le> j \<and> j \<le> - 1 \<and> idx2sign j r False = Inr idx"
  from b assms have "j mod r = idx" by (simp add: idx2sign_nonneg_form)
  with b assms show "j = idx - r" by (simp add: negative_form_unique)
next
  show "idx2sign 0 3 True = Inr (- 3)" by (simp add: idx2sign_def py_mod_def)
  show "idx2sign 1 3 True = Inr (- 2)" by (simp add: idx2sign_def py_mod_def)
  show "idx2sign 2 3 True = Inr (- 1)" by (simp add: idx2sign_def py_mod_def)
qed

theorem idx2sign_negative_witness:
  "idx2sign (- 2) 4 True = Inr (- 2)
   \<and> idx2sign 1 4 True = Inr ((1 + 1) mod (- (4 + 1)))
   \<and> idx2sign 1 4 True = Inr (- 3)
   \<and> idx2sign (- 3) 4 False = Inr 1"
proof -
  have h: "(0::int) < 4" by simp
  show ?thesis
    using idx2sign_negative [OF h, of "- 2"] idx2sign_negative [OF h, of 1]
    by (simp add: idx2sign_def py_mod_def)
qed

section \<open>Properties of the axes to reduce\<close>

lemma canonical_dims_pos:
  "0 < maxdim \<Longrightarrow> canonical_dims dims maxdim = Inr (map (\<lambda>i. i mod maxdim) dims)"
  by (induction dims) (simp_all add: idx2sign_nonneg_form)

lemma canonical_dims_zero:
  "canonical_dims dims 0 = (if dims = [] then Inr [] else Inl ZeroDivisionError)"
  by (cases dims) (simp_all add: idx2sign_def py_mod_def)

lemma canonical_dims_in_range:
  "\<forall>x\<in>set dims. 0 \<le> x \<and> x < maxdim \<Longrightarrow> canonical_dims dims maxdim = Inr dims"
  by (induction dims) (simp_all add: idx2sign_def py_mod_def)

lemma reduce_dim_not_None:
  "reducedim \<noteq> PyNone \<Longrightarrow> reduce_dim maxdim reducedim dim = Inr (make_tuple reducedim)"
  by (simp add: reduce_dim_def size2shape_def strip_tuple_def)

text \<open>
  Claim C3, as stated, fails: with explicit axes \<open>(-1,)\<close> at rank 3, resolving the
  axes gives \<open>(2,)\<close>, and \<^verbatim>\<open>reduce_dim\<close> returns \<open>(-1,)\<close>.
\<close>

theorem reduce_dim_keeps_negative_axis:
  "canonical_dims [- 1] 3 = Inr [2]
   \<and> reduce_dim 3 (PyTuple [PyInt (- 1)]) PyNone = Inr (PyTuple [PyInt (- 1)])
   \<and> reduce_dim 3 (PyTuple [PyInt (- 1)]) PyNone \<noteq> Inr (PyTuple [PyInt 2])"
  by (simp add: reduce_dim_not_None idx2sign_def py_mod_def)

text \<open>
  Claim C3, amended. For every rank, every explicit axes given as a tuple of axis indices
  and any \<^verbatim>\<open>dim\<close>, \<^verbatim>\<open>reduce_dim\<close> returns that tuple unchanged and in its order:
  no element is canonicalised. The result is therefore the resolved axes when every
  axis lies in \<open>[0, rank)\<close> already, and a negative axis such as \<open>-1\<close> comes back
  as \<open>-1\<close>.
\<close>

theorem reduce_dim_explicit:
  "reduce_dim maxdim (PyTuple (map PyInt axes)) dim = Inr (PyTuple (map PyInt axes))
   \<and> ((\<forall>x\<in>set axes. 0 \<le> x \<and> x < maxdim) \<longrightarrow>
        (\<exists>cd. canonical_dims axes maxdim = Inr cd
           \<and> reduce_dim maxdim (PyTuple (map PyInt axes)) dim = Inr (PyTuple (map PyInt cd))))
   \<and> reduce_dim maxdim (PyTuple [PyInt (- 1)]) dim = Inr (PyTuple [PyInt (- 1)])"
proof (intro conjI impI)
  show "reduce_dim maxdim (PyTuple (map PyInt axes)) dim = Inr (PyTuple (map PyInt axes))"
    by (simp add: reduce_dim_not_None)
next
  assume "\<forall>x\<in>set axes. 0 \<le> x \<and> x < maxdim"
  then have "canonical_dims axes maxdim = Inr axes" by (rule canonical_dims_in_range)
  then show "\<exists>cd. canonical_dims axes maxdim = Inr cd
      \<and> reduce_dim maxdim (PyTuple (map PyInt axes)) dim = Inr (PyTuple (map PyInt cd))"
    by (simp add: reduce_dim_not_None)
next
  show "reduce_dim maxdim (PyTuple [PyInt (- 1)]) dim = Inr (PyTuple [PyInt (- 1)])"
    by (simp add: reduce_dim_not_None)
qed

theorem reduce_dim_explicit_witness:
  "reduce_dim 3 (PyTuple (map PyInt [0, 2])) (PyInt 1) = Inr (PyTuple (map PyInt [0, 2]))
   \<and> canonical_dims [0, 2] 3 = Inr [0, 2]
   \<and> reduce_dim 3 (PyTuple [PyInt (- 1)]) (PyInt 1) = Inr (PyTuple [PyInt (- 1)])"
proof -
  have h: "\<forall>x\<in>set [0, 2 :: int]. 0 \<le> x \<and> x < 3" by simp
  show ?thesis
    using reduce_dim_explicit [of 3 "[0, 2]" "PyInt 1"] h
    by auto
qed

section \<open>Properties of shape broadcasting\<close>

lemma broadcast_dim_ge: "broadcast_dim dim ds = Inr r \<Longrightarrow> 1 \<le> dim \<Longrightarrow> 1 \<le> r"
  by (induction dim ds rule: broadcast_dim.induct) (auto split: if_splits)

lemma broadcast_loop_ge:
  "broadcast_loop zs acc = Inr res \<Longrightarrow> \<forall>x\<in>set acc. 1 \<le> x \<Longrightarrow> \<forall>x\<in>set res. 1 \<le> x"
proof (induction zs arbitrary: acc)
  case Nil
  then show ?case by simp
next
  case (Cons dims rest)
  from Cons.prems(1) obtain dim where d: "broadcast_dim 1 dims = Inr dim"
    and r: "broadcast_loop rest (acc @ [dim]) = Inr res"
    by (auto split: sum.splits)
  from d have "1 \<le> dim" by (rule broadcast_dim_ge) simp
  with Cons.prems(2) have "\<forall>x\<in>set (acc @ [dim]). 1 \<le> x" by simp
  with r show ?case by (rule Cons.IH)
qed

text \<open>The examples of the spec (section 8).\<close>

lemma broadcast_shapes_examples:
  "broadcast_shapes [[3, 4], [4]] = Inr [3, 4]"
  "broadcast_shapes [[3, 1], [1, 5]] = Inr [3, 5]"
  "broadcast_shapes [[3, 4], [3, 5]] = Inl ValueError"
  "broadcast_shapes [[]] = Inr []"
  "broadcast_shapes [] = Inr []"
  by code_simp+

text \<open>
  Claim C1 at the shapes \<open>(0,)\<close> and \<open>(5,)\<close>: passed as \<open>(5,), (0,)\<close> they are
  rejected, passed as \<open>(0,), (5,)\<close> they are accepted with result \<open>(5,)\<close>.
\<close>

theorem broadcast_shapes_zero_first:
  "broadcast_shapes [[0], [5]] = Inr [5] \<and> broadcast_shapes [[5], [0]] = Inl ValueError"
  by code_simp

text \<open>
  Claim C2 at the shapes \<open>(2, 0)\<close> and \<open>(2, 3)\<close>: the two orders of the same two
  shapes give different outcomes.
\<close>

theorem broadcast_shapes_order:
  "broadcast_shapes [[2, 0], [2, 3]] = Inr [2, 3]
   \<and> broadcast_shapes [[2, 3], [2, 0]] = Inl ValueError"
  by code_simp

text \<open>
  Claim C9. Whenever \<^verbatim>\<open>broadcast_shapes\<close> returns a shape, every axis size of it
  is at least 1; a size 0 of an input never appears in the output, and
  \<^verbatim>\<open>broadcast_shapes((0,))\<close> returns \<open>(1,)\<close>.
\<close>

theorem broadcast_shapes_sizes_positive:
  "(broadcast_shapes shapes = Inr result \<longrightarrow> (\<forall>d\<in>set result. 1 \<le> d))
   \<and> broadcast_shapes [[0]] = Inr [1]"
proof (intro conjI impI)
  assume a: "broadcast_shapes shapes = Inr result"
  then obtain res where r: "broadcast_loop (zip_longest (map rev shapes) 1) [] = Inr res"
    and e: "result = rev res"
    by (auto simp: broadcast_shapes_def split: sum.splits)
  from r have "\<forall>x\<in>set res. 1 \<le> x" by (rule broadcast_loop_ge) simp
  with e show "\<forall>d\<in>set result. 1 \<le> d" by simp
next
  show "broadcast_shapes [[0]] = Inr [1]" by code_simp
qed

theorem broadcast_shapes_sizes_positive_witness:
  "broadcast_shapes [[0, 3], [1, 1], [2, 1, 3]] = Inr [2, 1, 3]
   \<and> (1::int) \<le> 2 \<and> (1::int) \<le> 1 \<and> (1::int) \<le> 3"
proof -
  have h: "broadcast_shapes [[0, 3], [1, 1], [2, 1, 3]] = Inr [2, 1, 3]" by code_simp
  show ?thesis
    using broadcast_shapes_sizes_positive [of "[[0, 3], [1, 1], [2, 1, 3]]" "[2, 1, 3]"] h
    by simp
qed

section \<open>Properties of dropping axes\<close>

lemma index_shape_axes:
  "\<forall>d\<in>set ds. P d \<longrightarrow> 0 < sh d \<Longrightarrow>
   index_shape (map (\<lambda>d. if \<not> P d then Slice_None else Index 0) ds) (map sh ds)
     = Inr (map sh (filter (\<lambda>d. \<not> P d) ds))"
  by (induction ds) simp_all

lemma index_shape_axes_fail:
  "\<exists>d\<in>set ds. P d \<and> sh d = 0 \<Longrightarrow>
   index_shape (map (\<lambda>d. if \<not> P d then Slice_None else Index 0) ds) (map sh ds)
     = Inl IndexError"
proof (induction ds)
  case Nil
  then show ?case by simp
next
  case (Cons a ds)
  show ?case
  proof (cases "P a \<and> sh a = 0")
    case True
    then show ?thesis by simp
  next
    case False
    with Cons.prems have "\<exists>d\<in>set ds. P d \<and> sh d = 0" by auto
    then have "index_shape (map (\<lambda>d. if \<not> P d then Slice_None else Index 0) ds) (map sh ds)
        = Inl IndexError" by (rule Cons.IH)
    with False show ?thesis by auto
  qed
qed

lemma index_fill_axes:
  "\<forall>d\<in>set ds. P d \<longrightarrow> fu d = 0 \<Longrightarrow>
   index_fill (map (\<lambda>d. if \<not> P d then Slice_None else Index 0) ds) (map sh ds)
     (map fu (filter (\<lambda>d. \<not> P d) ds)) = map fu ds"
  by (induction ds) simp_all

lemma py_range_int: "py_range (int n) = map int [0..<n]"
  by (simp add: py_range_def)

lemma drop_dims_getitem:
  "canonical_dims dims (tensor_dim t) = Inr cd \<Longrightarrow>
   drop_dims t dims =
     getitem t (map (\<lambda>d. if \<not> int d \<in> set cd then Slice_None else Index 0)
                  [0..<length (shape t)])"
  by (simp add: drop_dims_def tensor_dim_def py_range_int comp_def)

lemma drop_dims_general:
  assumes cd: "canonical_dims dims (tensor_dim t) = Inr cd"
    and nz: "\<forall>d<length (shape t). int d \<in> set cd \<longrightarrow> 0 < shape t ! d"
  shows "\<exists>r. drop_dims t dims = Inr r
           \<and> shape r = map ((!) (shape t)) (filter (\<lambda>d. int d \<notin> set cd) [0..<length (shape t)])
           \<and> (\<forall>full. length full = length (shape t)
                  \<and> (\<forall>d<length (shape t). int d \<in> set cd \<longrightarrow> full ! d = 0)
                \<longrightarrow> elem r (map ((!) full) (filter (\<lambda>d. int d \<notin> set cd) [0..<length (shape t)]))
                      = elem t full)"
proof -
  let ?n = "length (shape t)"
  let ?P = "\<lambda>d. int d \<in> set cd"
  let ?slc = "map (\<lambda>d. if \<not> ?P d then Slice_None else Index 0) [0..<?n]"
  let ?kept = "filter (\<lambda>d. \<not> ?P d) [0..<?n]"
  have shp: "map ((!) (shape t)) [0..<?n] = shape t" by (rule map_nth)
  have "index_shape ?slc (map ((!) (shape t)) [0..<?n]) = Inr (map ((!) (shape t)) ?kept)"
    by (rule index_shape_axes) (use nz in simp)
  then have ishape: "index_shape ?slc (shape t) = Inr (map ((!) (shape t)) ?kept)"
    by (simp only: shp)
  have fill: "index_fill ?slc (shape t) (map ((!) full) ?kept) = full"
    if "length full = ?n" "\<forall>d<?n. ?P d \<longrightarrow> full ! d = 0" for full
  proof -
    have "index_fill ?slc (map ((!) (shape t)) [0..<?n]) (map ((!) full) ?kept)
        = map ((!) full) [0..<?n]"
      by (rule index_fill_axes) (use that in simp)
    moreover have "map ((!) full) [0..<?n] = full"
      using that(1) map_nth [of full] by simp
    ultimately show ?thesis by (simp only: shp)
  qed
  show ?thesis
    unfolding drop_dims_getitem [OF cd] getitem_def ishape
    using fill by simp
qed

lemma drop_dims_empty_axis:
  assumes cd: "canonical_dims dims (tensor_dim t) = Inr cd"
    and z: "\<exists>d<length (shape t). int d \<in> set cd \<and> shape t ! d = 0"
  shows "drop_dims t dims = Inl IndexError"
proof -
  let ?n = "length (shape t)"
  let ?P = "\<lambda>d. int d \<in> set cd"
  let ?slc = "map (\<lambda>d. if \<not> ?P d then Slice_None else Index 0) [0..<?n]"
  have shp: "map ((!) (shape t)) [0..<?n] = shape t" by (rule map_nth)
  have "index_shape ?slc (map ((!) (shape t)) [0..<?n]) = Inl IndexError"
    by (rule index_shape_axes_fail) (use z in auto)
  then have "index_shape ?slc (shape t) = Inl IndexError" by (simp only: shp)
  then show ?thesis
    unfolding drop_dims_getitem [OF cd] getitem_def by simp
qed

lemma drop_dims_scalar:
  "shape t = [] \<Longrightarrow> dims \<noteq> [] \<Longrightarrow> drop_dims t dims = Inl ZeroDivisionError"
  by (simp add: drop_dims_def tensor_dim_def canonical_dims_zero)

lemma drop_dims_234:
  assumes "shape t = [2, 3, 4]"
  shows "\<exists>r. drop_dims t [1] = Inr r \<and> shape r = [2, 4]
           \<and> (\<forall>i k. elem r [i, k] = elem t [i, 0, k])"
proof -
  have cd: "canonical_dims [1] (tensor_dim t) = Inr [1]"
    using assms by (simp add: tensor_dim_def idx2sign_def py_mod_def)
  have up: "[0..<3] = [0, 1, 2]" by code_simp
  show ?thesis
    unfolding drop_dims_getitem [OF cd] getitem_def
    using assms by (simp add: up)
qed

text \<open>
  Claim C8, as stated, fails: on a tensor of shape \<open>(2, 0, 4)\<close> with axes \<open>{1}\<close> the
  selection of index 0 along the empty axis raises \<^verbatim>\<open>IndexError\<close>, and no view is
  returned.
\<close>

theorem drop_dims_empty_axis_raises:
  "shape empty_axis_tensor = [2, 0, 4]
   \<and> canonical_dims [1] (tensor_dim empty_axis_tensor) = Inr [1]
   \<and> drop_dims empty_axis_tensor [1] = Inl IndexError"
proof -
  have sh: "shape empty_axis_tensor = [2, 0, 4]" by (simp add: empty_axis_tensor_def)
  have cd: "canonical_dims [1] (tensor_dim empty_axis_tensor) = Inr [1]"
    by (simp add: tensor_dim_def sh idx2sign_def py_mod_def)
  have "\<exists>d<length (shape empty_axis_tensor). int d \<in> set [1] \<and> shape empty_axis_tensor ! d = 0"
    unfolding sh by (rule exI [of _ 1]) simp
  with cd have "drop_dims empty_axis_tensor [1] = Inl IndexError"
    by (rule drop_dims_empty_axis)
  with sh cd show ?thesis by simp
qed

text \<open>
  Claim C8, amended. For every tensor and every collection of axis references such that
  the axes canonicalise against the rank of the tensor (to \<open>idx mod rank\<close>, a
  non-negative axis below the rank, for a tensor with at least one axis) and no
  canonical axis is empty, \<^verbatim>\<open>drop_dims\<close> returns a tensor whose shape lists the sizes of
  the axes that are not canonical axes, in order, and whose element at a multi-index
  is the element of the argument at the full multi-index with 0 at every canonical
  axis and the given positions at the other axes. On a tensor of shape \<open>(2, 3, 4)\<close>
  with axes \<open>{1}\<close> the result has shape \<open>(2, 4)\<close> and its element at \<open>(i, k)\<close> is
  the element at \<open>(i, 0, k)\<close>.
\<close>

theorem drop_dims_selects:
  assumes cd: "canonical_dims dims (tensor_dim t) = Inr cd"
    and nz: "\<forall>d<length (shape t). int d \<in> set cd \<longrightarrow> 0 < shape t ! d"
  shows "(shape t \<noteq> [] \<longrightarrow> cd = map (\<lambda>idx. idx mod tensor_dim t) dims
            \<and> (\<forall>c\<in>set cd. 0 \<le> c \<and> c < tensor_dim t))
       \<and> (\<exists>r. drop_dims t dims = Inr r
           \<and> shape r = map ((!) (shape t)) (filter (\<lambda>d. int d \<notin> set cd) [0..<length (shape t)])
           \<and> (\<forall>full. length full = length (shape t)
                  \<and> (\<forall>d<length (shape t). int d \<in> set cd \<longrightarrow> full ! d = 0)
                \<longrightarrow> elem r (map ((!) full) (filter (\<lambda>d. int d \<notin> set cd) [0..<length (shape t)]))
                      = elem t full))
       \<and> (shape u = [2, 3, 4] \<longrightarrow>
            (\<exists>r. drop_dims u [1] = Inr r \<and> shape r = [2, 4]
               \<and> (\<forall>i k. elem r [i, k] = elem u [i, 0, k])))"
proof (intro conjI impI)
  assume ne: "shape t \<noteq> []"
  then have pos: "0 < tensor_dim t" by (simp add: tensor_dim_def)
  with cd show c: "cd = map (\<lambda>idx. idx mod tensor_dim t) dims"
    by (simp add: canonical_dims_pos)
  from pos show "\<forall>c\<in>set cd. 0 \<le> c \<and> c < tensor_dim t"
    unfolding c by simp
next
  show "\<exists>r. drop_dims t dims = Inr r
           \<and> shape r = map ((!) (shape t)) (filter (\<lambda>d. int d \<notin> set cd) [0..<length (shape t)])
           \<and> (\<forall>full. length full = length (shape t)
                  \<and> (\<forall>d<length (shape t). int d \<in> set cd \<longrightarrow> full ! d = 0)
                \<longrightarrow> elem r (map ((!) full) (filter (\<lambda>d. int d \<notin> set cd) [0..<length (shape t)]))
                      = elem t full)"
    using cd nz by (rule drop_dims_general)
next
  assume "shape u = [2, 3, 4]"
  then show "\<exists>r. drop_dims u [1] = Inr r \<and> shape r = [2, 4]
               \<and> (\<forall>i k. elem r [i, k] = elem u [i, 0, k])"
    by (rule drop_dims_234)
qed

theorem drop_dims_selects_witness:
  "canonical_dims [- 2] (tensor_dim example_tensor) = Inr [1]
   \<and> (\<exists>r. drop_dims example_tensor [- 2] = Inr r \<and> shape r = [2, 4]
          \<and> elem r [1, 3] = [1, 0, 3])
   \<and> (\<exists>r. drop_dims example_tensor [1] = Inr r \<and> shape r = [2, 4]
          \<and> elem r [1, 3] = [1, 0, 3])"
proof -
  have up: "[0..<3] = [0, 1, 2]" by code_simp
  have sh: "shape example_tensor = [2, 3, 4]" by (simp add: example_tensor_def)
  have cd: "canonical_dims [- 2] (tensor_dim example_tensor) = Inr [1]"
    by (simp add: tensor_dim_def sh idx2sign_def py_mod_def)
  have nz: "\<forall>d<length (shape example_tensor). int d \<in> set [1] \<longrightarrow> 0 < shape example_tensor ! d"
    by (simp add: sh)
  from drop_dims_selects [OF cd nz, of example_tensor] obtain r where r: "drop_dims example_tensor [- 2] = Inr r"
    "shape r = map ((!) (shape example_tensor))
       (filter (\<lambda>d. int d \<notin> set [1]) [0..<length (shape example_tensor)])"
    "\<forall>full. length full = length (shape example_tensor)
        \<and> (\<forall>d<length (shape example_tensor). int d \<in> set [1] \<longrightarrow> full ! d = 0)
      \<longrightarrow> elem r (map ((!) full)
            (filter (\<lambda>d. int d \<notin> set [1]) [0..<length (shape example_tensor)]))
          = elem example_tensor full"
    by blast
  from r(2) have s: "shape r = [2, 4]" by (simp add: sh up)
  have "length [1, 0, 3 :: nat] = length (shape example_tensor)
      \<and> (\<forall>d<length (shape example_tensor). int d \<in> set [1] \<longrightarrow> [1, 0, 3 :: nat] ! d = 0)"
    by (simp add: sh)
  with r(3) have "elem r (map ((!) [1, 0, 3])
        (filter (\<lambda>d. int d \<notin> set [1]) [0..<length (shape example_tensor)]))
      = elem example_tensor [1, 0, 3]"
    by blast
  then have e: "elem r [1, 3] = [1, 0, 3]"
    by (simp add: sh up example_tensor_def)
  from drop_dims_selects [OF cd nz, of example_tensor] sh obtain r' where r': "drop_dims example_tensor [1] = Inr r'" "shape r' = [2, 4]"
    "\<forall>i k. elem r' [i, k] = elem example_tensor [i, 0, k]"
    by blast
  from r'(3) have e': "elem r' [1, 3] = [1, 0, 3]" by (simp add: example_tensor_def)
  from cd r s e r' e' show ?thesis by blast
qed

section \<open>Properties of unwrapping\<close>

lemma canonical_manifold_chain:
  "wrapper_chain G h n m t \<Longrightarrow> canonical_manifold G h m = Some (Inr t)"
proof (induction n arbitrary: m)
  case 0
  then show ?case by (subst canonical_manifold.simps) simp
next
  case (Suc n)
  then obtain b where b: "base (h m) = Some b" "isinstance G h m (Scaled G)"
    "wrapper_chain G h n b t"
    by (auto split: option.splits)
  from b(3) have "canonical_manifold G h b = Some (Inr t)" by (rule Suc.IH)
  with b show ?case by (subst canonical_manifold.simps) simp
qed

lemma chain_end: "wrapper_chain G h n m t \<Longrightarrow> \<not> isinstance G h t (Scaled G)"
  by (induction n arbitrary: m) (auto split: option.splits)

lemma ismanifold_unwrap_chain:
  "wrapper_chain G h n m t \<Longrightarrow> ismanifold_unwrap G h m = Some (Inr t)"
proof (induction n arbitrary: m)
  case 0
  then show ?case by (subst ismanifold_unwrap.simps) simp
next
  case (Suc n)
  then obtain b where b: "base (h m) = Some b" "isinstance G h m (Scaled G)"
    "wrapper_chain G h n b t"
    by (auto split: option.splits)
  from b(3) have "ismanifold_unwrap G h b = Some (Inr t)" by (rule Suc.IH)
  with b show ?case by (subst ismanifold_unwrap.simps) simp
qed

text \<open>
  Without a finite chain there is no result: from a set of \<^verbatim>\<open>Scaled\<close> objects that
  is closed under \<^verbatim>\<open>base\<close> the loop never returns.
\<close>

lemma canonical_manifold_cycle:
  assumes closed: "\<forall>x\<in>S. isinstance G h x (Scaled G) \<and> (\<exists>b\<in>S. base (h x) = Some b)"
    and m: "m \<in> S"
  shows "canonical_manifold G h m = None"
proof (rule ccontr)
  assume "canonical_manifold G h m \<noteq> None"
  then obtain y where y: "canonical_manifold G h m = Some y" by auto
  have "\<not> (G = G \<and> h = h \<and> m \<in> S)"
  proof (rule canonical_manifold.raw_induct
      [where P = "\<lambda>G' h' x y'. \<not> (G' = G \<and> h' = h \<and> x \<in> S)", OF _ y])
    fix cm G' h' x y'
    assume IH: "\<And>G'' h'' b y''. cm G'' h'' b = Some y'' \<Longrightarrow> \<not> (G'' = G \<and> h'' = h \<and> b \<in> S)"
      and eq: "(if isinstance G' h' x (Scaled G') then
                  (case base (h' x) of None \<Rightarrow> Some (Inl AttributeError)
                   | Some b \<Rightarrow> cm G' h' b)
                else Some (Inr x)) = Some y'"
    show "\<not> (G' = G \<and> h' = h \<and> x \<in> S)"
    proof
      assume a: "G' = G \<and> h' = h \<and> x \<in> S"
      with closed obtain b where b: "b \<in> S" "base (h x) = Some b" "isinstance G h x (Scaled G)"
        by blast
      with a eq have "cm G h b = Some y'" by simp
      then have "\<not> (G = G \<and> h = h \<and> b \<in> S)" by (rule IH)
      with b show False by simp
    qed
  qed
  with m show False by simp
qed

lemma canonical_manifold_self_loop: "canonical_manifold example_geoopt example_heap 3 = None"
  by (rule canonical_manifold_cycle [where S = "{3}"])
    (simp_all add: example_geoopt_def example_heap_def isinstance_def)

text \<open>Whatever the loop of \<^verbatim>\<open>ismanifold\<close> returns is not a \<^verbatim>\<open>Scaled\<close>.\<close>

lemma ismanifold_unwrap_result:
  assumes "ismanifold_unwrap G h x = Some (Inr t)"
  shows "\<not> isinstance G h t (Scaled G)"
proof -
  have "(Inr t :: error + ref) = Inr t \<longrightarrow> \<not> isinstance G h t (Scaled G)"
  proof (rule ismanifold_unwrap.raw_induct
      [where P = "\<lambda>G' h' x y'. y' = Inr t \<longrightarrow> \<not> isinstance G' h' t (Scaled G')", OF _ assms])
    fix un G' h' x y'
    assume IH: "\<And>G'' h'' b y''. un G'' h'' b = Some y'' \<Longrightarrow>
                  y'' = Inr t \<longrightarrow> \<not> isinstance G'' h'' t (Scaled G'')"
      and eq: "(if isinstance G' h' x (Scaled G') then
                  (case base (h' x) of None \<Rightarrow> Some (Inl AttributeError)
                   | Some b \<Rightarrow> un G' h' b)
                else Some (Inr x)) = Some y'"
    show "y' = Inr t \<longrightarrow> \<not> isinstance G' h' t (Scaled G')"
    proof (cases "isinstance G' h' x (Scaled G')")
      case True
      show ?thesis
      proof (cases "base (h' x)")
        case None
        with True eq show ?thesis by auto
      next
        case (Some b)
        with True eq have "un G' h' b = Some y'" by simp
        then show ?thesis by (rule IH)
      qed
    next
      case False
      with eq show ?thesis by auto
    qed
  qed
  then show ?thesis by simp
qed

lemma chain_head_manifold:
  assumes "class_hierarchy G" "wrapper_chain G h (Suc n) m t"
  shows "isinstance G h m (Manifold G)"
proof -
  from assms(2) have "issubclass G (cls (h m)) (Scaled G)" by (simp add: isinstance_def)
  with assms(1) show ?thesis unfolding class_hierarchy_def isinstance_def by blast
qed

lemma example_hierarchy: "class_hierarchy example_geoopt"
  unfolding class_hierarchy_def example_geoopt_def
  apply simp
  apply (intro allI impI)
  subgoal for a b c by (cases a; cases b; cases c; simp)
  done

lemma example_chain: "wrapper_chain example_geoopt example_heap (Suc (Suc 0)) 0 2"
  by (simp add: example_geoopt_def example_heap_def isinstance_def)

text \<open>
  Claim C6. For every finite wrapper chain, of any length \<open>n\<close>, from \<open>m\<close> to the
  object \<open>t\<close> that is not a \<^verbatim>\<open>Scaled\<close>, \<^verbatim>\<open>canonical_manifold\<close> terminates and
  returns \<open>t\<close>; on an object that is not a \<^verbatim>\<open>Scaled\<close> it returns the object itself.
\<close>

theorem canonical_manifold_terminates:
  "(wrapper_chain G h n m t \<longrightarrow>
      canonical_manifold G h m = Some (Inr t) \<and> \<not> isinstance G h t (Scaled G))
   \<and> (\<not> isinstance G h m (Scaled G) \<longrightarrow> canonical_manifold G h m = Some (Inr m))"
proof (intro conjI impI)
  assume "wrapper_chain G h n m t"
  then show "canonical_manifold G h m = Some (Inr t)" by (rule canonical_manifold_chain)
next
  assume "wrapper_chain G h n m t"
  then show "\<not> isinstance G h t (Scaled G)" by (rule chain_end)
next
  assume "\<not> isinstance G h m (Scaled G)"
  then have "wrapper_chain G h 0 m m" by simp
  then show "canonical_manifold G h m = Some (Inr m)" by (rule canonical_manifold_chain)
qed

theorem canonical_manifold_terminates_witness:
  "canonical_manifold example_geoopt example_heap 0 = Some (Inr 2)
   \<and> canonical_manifold example_geoopt example_heap 2 = Some (Inr 2)
   \<and> cls (example_heap 2) = Sphere_cls"
proof -
  have n: "\<not> isinstance example_geoopt example_heap 2 (Scaled example_geoopt)"
    by (simp add: example_geoopt_def example_heap_def isinstance_def)
  show ?thesis
    using canonical_manifold_terminates [of example_geoopt example_heap "Suc (Suc 0)" 0 2]
      canonical_manifold_terminates [of example_geoopt example_heap 0 2 2]
      example_chain n
    by (simp add: example_heap_def)
qed

text \<open>
  Claim C7. In a class hierarchy of the package (transitive, \<^verbatim>\<open>Scaled\<close> a subclass of
  \<^verbatim>\<open>Manifold\<close>), for every class \<open>c\<close> that is a subclass of \<^verbatim>\<open>Manifold\<close> and every
  instance at the head of a finite wrapper chain of any depth \<open>n\<close>, the check
  \<^verbatim>\<open>ismanifold(instance, c)\<close> returns, and returns what
  \<^verbatim>\<open>ismanifold(canonical_manifold(instance), c)\<close> returns.
\<close>

theorem ismanifold_transparent:
  assumes H: "class_hierarchy G"
    and c: "issubclass G c (Manifold G)"
    and ch: "wrapper_chain G h n instance t"
  shows "canonical_manifold G h instance = Some (Inr t)
       \<and> ismanifold G h instance c = ismanifold G h t c
       \<and> ismanifold G h instance c = Some (Inr (isinstance G h t c))"
proof -
  have t0: "wrapper_chain G h 0 t t" using ch by (simp add: chain_end)
  have imp: "isinstance G h t c \<Longrightarrow> isinstance G h t (Manifold G)"
    using H c unfolding class_hierarchy_def isinstance_def by blast
  have rhs: "ismanifold G h t c = Some (Inr (isinstance G h t c))"
    using c imp by (auto simp: ismanifold_def ismanifold_unwrap_chain [OF t0])
  have lhs: "ismanifold G h instance c = Some (Inr (isinstance G h t c))"
  proof (cases n)
    case 0
    with ch have "instance = t" by simp
    with rhs show ?thesis by simp
  next
    case (Suc k)
    with ch H have "isinstance G h instance (Manifold G)"
      by (auto intro: chain_head_manifold)
    with c show ?thesis
      by (simp add: ismanifold_def ismanifold_unwrap_chain [OF ch])
  qed
  from lhs rhs canonical_manifold_chain [OF ch] show ?thesis by simp
qed

theorem ismanifold_transparent_witness:
  "canonical_manifold example_geoopt example_heap 0 = Some (Inr 2)
   \<and> ismanifold example_geoopt example_heap 0 Sphere_cls = ismanifold example_geoopt example_heap 2 Sphere_cls
   \<and> ismanifold example_geoopt example_heap 0 Sphere_cls = Some (Inr True)"
proof -
  have c: "issubclass example_geoopt Sphere_cls (Manifold example_geoopt)"
    by (simp add: example_geoopt_def)
  have i: "isinstance example_geoopt example_heap 2 Sphere_cls"
    by (simp add: example_geoopt_def example_heap_def isinstance_def)
  show ?thesis
    using ismanifold_transparent [OF example_hierarchy c example_chain] i
    by auto
qed

text \<open>
  Claim C10. With \<^verbatim>\<open>Scaled\<close> a subclass of \<^verbatim>\<open>Manifold\<close>, for every instance that is
  not a \<^verbatim>\<open>Manifold\<close> or is the head of a finite wrapper chain (a \<^verbatim>\<open>Scaled\<close> wrapper
  included), \<^verbatim>\<open>ismanifold(instance, Scaled)\<close> returns \<^verbatim>\<open>False\<close>; and on no instance
  at all does it return \<^verbatim>\<open>True\<close>.
\<close>

theorem ismanifold_Scaled_false:
  assumes S: "issubclass G (Scaled G) (Manifold G)"
    and ch: "isinstance G h instance (Manifold G) \<longrightarrow> wrapper_chain G h n instance t"
  shows "ismanifold G h instance (Scaled G) = Some (Inr False)
       \<and> (\<forall>x b. ismanifold G h x (Scaled G) = Some (Inr b) \<longrightarrow> \<not> b)"
proof
  show "ismanifold G h instance (Scaled G) = Some (Inr False)"
  proof (cases "isinstance G h instance (Manifold G)")
    case True
    with ch have w: "wrapper_chain G h n instance t" by simp
    with S True show ?thesis
      by (simp add: ismanifold_def ismanifold_unwrap_chain [OF w] chain_end [OF w])
  next
    case False
    with S show ?thesis by (simp add: ismanifold_def)
  qed
  show "\<forall>x b. ismanifold G h x (Scaled G) = Some (Inr b) \<longrightarrow> \<not> b"
    by (auto simp: ismanifold_def split: if_splits option.splits sum.splits
        dest: ismanifold_unwrap_result)
qed

theorem ismanifold_Scaled_false_witness:
  "ismanifold example_geoopt example_heap 0 Scaled_cls = Some (Inr False)
   \<and> ismanifold example_geoopt example_heap 4 Scaled_cls = Some (Inr False)
   \<and> isinstance example_geoopt example_heap 0 Scaled_cls"
proof -
  have s: "issubclass example_geoopt (Scaled example_geoopt) (Manifold example_geoopt)"
    by (simp add: example_geoopt_def)
  have c0: "isinstance example_geoopt example_heap 0 (Manifold example_geoopt)
      \<longrightarrow> wrapper_chain example_geoopt example_heap (Suc (Suc 0)) 0 2"
    using example_chain by simp
  have c4: "isinstance example_geoopt example_heap 4 (Manifold example_geoopt)
      \<longrightarrow> wrapper_chain example_geoopt example_heap 0 4 4"
    by (simp add: example_geoopt_def example_heap_def isinstance_def)
  have i: "isinstance example_geoopt example_heap 0 Scaled_cls"
    by (simp add: example_geoopt_def example_heap_def isinstance_def)
  have e: "Scaled example_geoopt = Scaled_cls" by (simp add: example_geoopt_def)
  show ?thesis
    using ismanifold_Scaled_false [OF s c0] ismanifold_Scaled_false [OF s c4] i
    by (simp add: e)
qed

end
